theory Spec2Isabelle
  imports Main
begin

section \<open>The URL encoding proxy of docker/url-proxy/url\_proxy.py\<close>

text \<open>
  The file holds one pure function, \<open>fix_url_encoding\<close>, one request handler,
  \<open>proxy_request\<close>, a second handler \<open>health_check\<close>, and the route table that the two
  decorators build. Python strings are modelled as \<open>string\<close>; a Python \<open>dict\<close> is an
  association list with distinct keys in insertion order; an exception that leaves a
  function is the \<open>Inl\<close> of a sum.
\<close>

subsection \<open>Strings\<close>

definition newline :: char where
  "newline = CHR 0x0A"

text \<open>\<open>s.startswith(sub)\<close>.\<close>

fun startswith :: "string \<Rightarrow> string \<Rightarrow> bool" where
  "startswith s [] = True"
| "startswith [] (c # cs) = False"
| "startswith (x # xs) (c # cs) = (x = c \<and> startswith xs cs)"

text \<open>Python's \<open>sub in s\<close> on strings: \<open>sub\<close> occurs in \<open>s\<close> as a contiguous block.\<close>

fun str_in :: "string \<Rightarrow> string \<Rightarrow> bool" where
  "str_in sub [] = (sub = [])"
| "str_in sub (x # xs) = (startswith (x # xs) sub \<or> str_in sub xs)"

subsection \<open>The fragment of Python's \<open>re\<close> that the pattern uses\<close>

text \<open>
  The pattern \<^verbatim>\<open>^/([^/]+)/([^/]+)_([^/]+)/(.*)$\<close> is built from five kinds of node:
  the anchors \<^verbatim>\<open>^\<close> and \<^verbatim>\<open>$\<close>, a literal character, and a capturing group around one
  greedy repetition of a character set, \<^verbatim>\<open>([^c]+)\<close> or \<^verbatim>\<open>(.*)\<close>. No flag is passed to
  \<open>re.match\<close>, so \<^verbatim>\<open>.\<close> matches every character but the newline, \<^verbatim>\<open>[^/]\<close> matches
  every character but the slash (the newline too), and \<^verbatim>\<open>$\<close> matches at the end of the
  string and also just before a newline that is the string's last character.
\<close>

datatype charset = NotChar char | Dot

fun in_charset :: "charset \<Rightarrow> char \<Rightarrow> bool" where
  "in_charset (NotChar c) x = (x \<noteq> c)"
| "in_charset Dot x = (x \<noteq> newline)"

datatype re_node =
    Bol
  | Eol
  | Lit char
  | Group charset nat

text \<open>The first alternative that succeeds, in the order tried.\<close>

fun first_some :: "'a option list \<Rightarrow> 'a option" where
  "first_some [] = None"
| "first_some (None # rs) = first_some rs"
| "first_some (Some r # rs) = Some r"

text \<open>
  \<open>re_run ns i s\<close> matches the nodes \<open>ns\<close> against \<open>s\<close>, the part of the subject that
  starts at position \<open>i\<close>, and returns the captured groups in order. A group
  \<open>Group cs lo\<close> is greedy and backtracks: it first takes the longest run of characters
  of \<open>cs\<close>, then gives characters back one at a time, never going below \<open>lo\<close>, until the
  rest of the pattern matches. As with \<open>re.match\<close>, the pattern need not consume the
  whole subject unless it says so with \<^verbatim>\<open>$\<close>.
\<close>

fun re_run :: "re_node list \<Rightarrow> nat \<Rightarrow> string \<Rightarrow> string list option" where
  "re_run [] i s = Some []"
| "re_run (Bol # ns) i s = (if i = 0 then re_run ns i s else None)"
| "re_run (Eol # ns) i s = (if s = [] \<or> s = [newline] then re_run ns i s else None)"
| "re_run (Lit c # ns) i s =
     (case s of
        [] \<Rightarrow> None
      | x # xs \<Rightarrow> if x = c then re_run ns (Suc i) xs else None)"
| "re_run (Group cs lo # ns) i s =
     first_some
       (map (\<lambda>k. map_option ((#) (take k s)) (re_run ns (i + k) (drop k s)))
            (rev [lo ..< Suc (length (takeWhile (in_charset cs) s))]))"

definition re_match :: "re_node list \<Rightarrow> string \<Rightarrow> string list option" where
  "re_match pat s = re_run pat 0 s"

subsection \<open>fix\_url\_encoding\<close>

text \<open>\<^verbatim>\<open>pattern = r"^/([^/]+)/([^/]+)_([^/]+)/(.*)$"\<close>\<close>

definition pattern :: "re_node list" where
  "pattern =
     [Bol, Lit CHR ''/'', Group (NotChar CHR ''/'') 1,
      Lit CHR ''/'', Group (NotChar CHR ''/'') 1,
      Lit CHR ''_'', Group (NotChar CHR ''/'') 1,
      Lit CHR ''/'', Group Dot 0, Eol]"

text \<open>
  The function returns the fixed path when the pattern matches and the second segment
  holds one of the two markers, and the path itself otherwise. The \<open>logger.info\<close> call
  before the first \<open>return\<close> changes no value and is left out.
\<close>

definition fix_url_encoding :: "string \<Rightarrow> string" where
  "fix_url_encoding path =
     (case re_match pattern path of
        Some [part1, part2, part3, rest] \<Rightarrow>
          if str_in ''CT_BRAIN'' (part2 @ ''_'' @ part3)
             \<or> str_in ''multiclass_segmentation'' (part2 @ ''_'' @ part3)
          then ''/'' @ part1 @ ''%252F'' @ part2 @ ''_'' @ part3 @ ''/'' @ rest
          else path
      | _ \<Rightarrow> path)"

subsection \<open>Dictionaries\<close>

text \<open>
  A Python \<open>dict\<close> keeps its keys distinct and in insertion order, and compares keys
  exactly: \<open>"connection"\<close> and \<open>"Connection"\<close> are two keys.
\<close>

type_synonym 'v dict = "(string \<times> 'v) list"

text \<open>\<open>d[k] = v\<close>: the value is replaced in place when the key is there, and the pair is
  added at the end otherwise.\<close>

fun dict_set :: "string \<Rightarrow> 'v \<Rightarrow> 'v dict \<Rightarrow> 'v dict" where
  "dict_set k v [] = [(k, v)]"
| "dict_set k v ((k', v') # d) =
     (if k' = k then (k', v) # d else (k', v') # dict_set k v d)"

text \<open>\<open>d.pop(k, None)\<close>, the dictionary it leaves: the key goes when it is there, and
  nothing happens otherwise.\<close>

fun dict_pop :: "string \<Rightarrow> 'v dict \<Rightarrow> 'v dict" where
  "dict_pop k [] = []"
| "dict_pop k ((k', v') # d) =
     (if k' = k then dict_pop k d else (k', v') # dict_pop k d)"

text \<open>\<open>dict(items)\<close>: the items are stored one after another.\<close>

definition dict_of :: "(string \<times> 'v) list \<Rightarrow> 'v dict" where
  "dict_of kvs = foldl (\<lambda>d (k, v). dict_set k v d) [] kvs"

text \<open>
  \<open>dict(m)\<close> for a mapping \<open>m\<close> that lists a repeated key once per occurrence and looks a
  key up by its first occurrence, as \<open>request.headers\<close> does: every key is stored with
  the value of its first occurrence.
\<close>

definition dict_of_mapping :: "(string \<times> 'v) list \<Rightarrow> 'v dict" where
  "dict_of_mapping kvs =
     foldl (\<lambda>d (k, v). dict_set k (case map_of kvs k of Some first \<Rightarrow> first | None \<Rightarrow> v) d)
       [] kvs"

text \<open>\<open>d.get(k)\<close>.\<close>

definition dict_get :: "'v dict \<Rightarrow> string \<Rightarrow> 'v option" where
  "dict_get d k = map_of d k"

subsection \<open>Configuration\<close>

text \<open>
  \<open>FILESERVER_HOST\<close> and \<open>FILESERVER_PORT\<close> are read from the environment once, at
  import; the port goes through \<open>int\<close>, and an f-string prints it in decimal.
\<close>

record config =
  FILESERVER_HOST :: string
  FILESERVER_PORT :: int

fun str_nat :: "nat \<Rightarrow> string" where
  "str_nat n =
     (if n < 10 then [''0123456789'' ! n]
      else str_nat (n div 10) @ [''0123456789'' ! (n mod 10)])"

declare str_nat.simps [simp del]

definition str_int :: "int \<Rightarrow> string" where
  "str_int i = (if i < 0 then ''-'' @ str_nat (nat (- i)) else str_nat (nat i))"

definition default_config :: config where
  "default_config = \<lparr>FILESERVER_HOST = ''fileserver'', FILESERVER_PORT = 8081\<rparr>"

subsection \<open>Requests, responses and exceptions\<close>

text \<open>
  The inbound request as the handler reads it: \<open>request.method\<close>, \<open>request.url.path\<close>
  (which the router matches), \<open>request.url.query\<close>, the items of \<open>request.headers\<close>
  and \<open>await request.body()\<close>.
\<close>

record request =
  req_method :: string
  req_path :: string
  req_query :: string
  req_headers :: "(string \<times> string) list"
  req_body :: string

text \<open>The keyword arguments of the call \<open>requests.request(...)\<close> in \<open>sync_request\<close>;
  \<open>http_method\<close> stands for the argument \<open>method\<close>.\<close>

record outbound =
  http_method :: string
  url :: string
  headers :: "string dict"
  data :: string
  allow_redirects :: bool
  timeout :: nat

text \<open>
  What \<open>requests\<close> hands back: \<open>response.status_code\<close>, the items of
  \<open>response.headers\<close> (a case-insensitive mapping that iterates over the header names
  in the spelling the upstream sent) and \<open>response.content\<close>.
\<close>

record upstream_response =
  up_status_code :: nat
  up_headers :: "(string \<times> string) list"
  up_content :: string

text \<open>The arguments of the \<open>Response(...)\<close> that the handler returns.\<close>

record response =
  content :: string
  status_code :: nat
  resp_headers :: "string dict"

text \<open>
  Exceptions, by the class that \<open>except\<close> would test, with the message \<open>str(e)\<close>.
  The classes of \<open>requests.exceptions\<close> derive from \<open>IOError\<close>; \<open>httpx.RequestError\<close>
  derives from \<open>httpx.HTTPError\<close>, a direct subclass of \<open>Exception\<close>. Neither library's
  classes are subclasses of the other's.
\<close>

datatype exn_class =
    Requests_ConnectionError
  | Requests_Timeout
  | Requests_RequestException
  | Httpx_RequestError
  | Other_Exception

type_synonym exn = "exn_class \<times> string"

text \<open>\<open>isinstance(e, httpx.RequestError)\<close>, the test of the handler's \<open>except\<close> clause.\<close>

fun is_httpx_RequestError :: "exn \<Rightarrow> bool" where
  "is_httpx_RequestError (c, msg) = (c = Httpx_RequestError)"

text \<open>The upstream file server seen through \<open>requests.request\<close>: it answers, or the call
  raises.\<close>

type_synonym upstream = "outbound \<Rightarrow> exn + upstream_response"

subsection \<open>proxy\_request\<close>

text \<open>Lines 80 to 88: the path is fixed, the target URL is built, and the query string is
  appended when \<open>request.url.query\<close> is not empty.\<close>

definition target_url :: "config \<Rightarrow> request \<Rightarrow> string \<Rightarrow> string" where
  "target_url cfg request path =
     (let original_path = ''/'' @ path;
          fixed_path = fix_url_encoding original_path;
          target = ''http://'' @ FILESERVER_HOST cfg @ '':''
                     @ str_int (FILESERVER_PORT cfg) @ fixed_path
      in if req_query request \<noteq> [] then target @ ''?'' @ req_query request else target)"

text \<open>Lines 99 to 107: what \<open>sync_request\<close> passes to \<open>requests.request\<close>.\<close>

definition sync_request :: "config \<Rightarrow> request \<Rightarrow> string \<Rightarrow> outbound" where
  "sync_request cfg request path =
     \<lparr>http_method = req_method request,
      url = target_url cfg request path,
      headers = dict_of_mapping (req_headers request),
      data = req_body request,
      allow_redirects = False,
      timeout = 30\<rparr>"

text \<open>Lines 114 to 125: the headers of the relayed response.\<close>

definition relay_headers :: "(string \<times> string) list \<Rightarrow> string dict" where
  "relay_headers items =
     (let headers = dict_of items;
          headers = dict_pop ''connection'' headers;
          headers = dict_pop ''transfer-encoding'' headers;
          headers = dict_set ''Access-Control-Allow-Origin'' ''*'' headers;
          headers = dict_set ''Access-Control-Allow-Methods''
                      ''GET, POST, OPTIONS, DELETE, PUT'' headers;
          headers = dict_set ''Access-Control-Allow-Headers''
                      ''DNT,User-Agent,X-Requested-With,If-Modified-Since,Cache-Control,Content-Type,Range,Authorization''
                      headers
      in headers)"

text \<open>
  The handler. The \<open>try\<close> block covers the upstream call and the building of the
  response; its one \<open>except\<close> clause catches \<open>httpx.RequestError\<close>, and every other
  exception leaves the handler.
\<close>

definition proxy_request :: "config \<Rightarrow> upstream \<Rightarrow> request \<Rightarrow> string \<Rightarrow> exn + response" where
  "proxy_request cfg upstream request path =
     (case upstream (sync_request cfg request path) of
        Inr response \<Rightarrow>
          Inr \<lparr>content = up_content response,
               status_code = up_status_code response,
               resp_headers = relay_headers (up_headers response)\<rparr>
      | Inl e \<Rightarrow>
          if is_httpx_RequestError e
          then Inr \<lparr>content = ''Proxy error: '' @ snd e,
                    status_code = 502,
                    resp_headers = [(''Content-Type'', ''text/plain'')]\<rparr>
          else Inl e)"

subsection \<open>health\_check and the route table\<close>

definition health_check :: "string dict" where
  "health_check = [(''status'', ''healthy''), (''service'', ''clearml-url-proxy'')]"

text \<open>
  A handler returns a \<open>Response\<close>, or a dictionary that the framework sends as JSON with
  status 200. The framework's own answers are JSON too, \<open>{"detail": ...}\<close> with status
  404 or 405, or one of its documentation pages.
\<close>

datatype reply = Response response | JSON nat "string dict" | Documentation_page string

text \<open>
  The application starts with the four documentation routes that the framework adds
  when \<open>FastAPI(...)\<close> is called, each for \<open>GET\<close> and \<open>HEAD\<close>. The two decorators then add
  one route each, in the order in which they stand in the file: the catch-all
  \<^verbatim>\<open>/{path:path}\<close> first (line 74), \<^verbatim>\<open>/health\<close> second (line 134). A route path is
  compiled to a regular expression between \<^verbatim>\<open>^\<close> and \<^verbatim>\<open>$\<close>, a \<open>path\<close> parameter becoming
  the group \<^verbatim>\<open>(.*)\<close>. The router tries the routes in order and hands the request to the
  first route whose path and method both match; with none, a route whose path alone
  matches makes the answer 405, and with no match at all the answer is 404.
\<close>

datatype endpoint = Documentation | Proxy_request | Health_check

record route =
  path_regex :: "re_node list"
  methods :: "string list"
  endpoint :: endpoint

definition static_route :: "string \<Rightarrow> string list \<Rightarrow> endpoint \<Rightarrow> route" where
  "static_route path ms e =
     \<lparr>path_regex = [Bol] @ map Lit path @ [Eol], methods = ms, endpoint = e\<rparr>"

definition framework_routes :: "route list" where
  "framework_routes =
     [static_route ''/openapi.json'' [''GET'', ''HEAD''] Documentation,
      static_route ''/docs'' [''GET'', ''HEAD''] Documentation,
      static_route ''/docs/oauth2-redirect'' [''GET'', ''HEAD''] Documentation,
      static_route ''/redoc'' [''GET'', ''HEAD''] Documentation]"

definition declared_routes :: "route list" where
  "declared_routes =
     [\<lparr>path_regex = [Bol, Lit CHR ''/'', Group Dot 0, Eol],
       methods = [''GET'', ''POST'', ''PUT'', ''DELETE'', ''HEAD'', ''OPTIONS''],
       endpoint = Proxy_request\<rparr>,
      static_route ''/health'' [''GET''] Health_check]"

definition routes :: "route list" where
  "routes = framework_routes @ declared_routes"

fun first_full :: "route list \<Rightarrow> request \<Rightarrow> (endpoint \<times> string list) option" where
  "first_full [] request = None"
| "first_full (r # rs) request =
     (case re_match (path_regex r) (req_path request) of
        Some params \<Rightarrow>
          if req_method request \<in> set (methods r) then Some (endpoint r, params)
          else first_full rs request
      | None \<Rightarrow> first_full rs request)"

fun any_partial :: "route list \<Rightarrow> request \<Rightarrow> bool" where
  "any_partial [] request = False"
| "any_partial (r # rs) request =
     (re_match (path_regex r) (req_path request) \<noteq> None \<or> any_partial rs request)"

text \<open>The value of the route's first path parameter.\<close>

fun path_param :: "string list \<Rightarrow> string" where
  "path_param [] = []"
| "path_param (p # ps) = p"

definition dispatch :: "config \<Rightarrow> upstream \<Rightarrow> request \<Rightarrow> exn + reply" where
  "dispatch cfg upstream request =
     (case first_full routes request of
        Some (Proxy_request, params) \<Rightarrow>
          map_sum id Response (proxy_request cfg upstream request (path_param params))
      | Some (Health_check, params) \<Rightarrow> Inr (JSON 200 health_check)
      | Some (Documentation, params) \<Rightarrow> Inr (Documentation_page (req_path request))
      | None \<Rightarrow>
          if any_partial routes request
          then Inr (JSON 405 [(''detail'', ''Method Not Allowed'')])
          else Inr (JSON 404 [(''detail'', ''Not Found'')]))"

subsection \<open>The request as the server hands it over\<close>

text \<open>
  The server passes the framework the request's method, its path with the percent
  escapes decoded, its query string as it was sent, its headers and its body. The router
  matches the decoded path. \<open>request.url\<close> is not the URL that was sent: the framework
  writes a URL out of the decoded path, a question mark and the query string (when there
  is one), and splits that text again, after dropping tabs, carriage returns and
  newlines. The fragment starts at the first \<open>#\<close>, and \<open>request.url.query\<close> is what stands
  between the first \<open>?\<close> and the fragment. The request is taken to carry a \<open>Host\<close> header, so
  that scheme and host stand before the path.
\<close>

record scope =
  scope_method :: string
  scope_path :: string
  scope_query_string :: string
  scope_headers :: "(string \<times> string) list"
  scope_body :: string

definition url_query :: "string \<Rightarrow> string \<Rightarrow> string" where
  "url_query path query_string =
     (let written = path @ (if query_string \<noteq> [] then ''?'' @ query_string else []);
          kept = filter (\<lambda>c. c \<noteq> CHR 0x09 \<and> c \<noteq> CHR 0x0D \<and> c \<noteq> newline) written;
          before_fragment = takeWhile (\<lambda>c. c \<noteq> CHR ''#'') kept
      in drop 1 (dropWhile (\<lambda>c. c \<noteq> CHR ''?'') before_fragment))"

definition request_of_scope :: "scope \<Rightarrow> request" where
  "request_of_scope sc =
     \<lparr>req_method = scope_method sc,
      req_path = scope_path sc,
      req_query = url_query (scope_path sc) (scope_query_string sc),
      req_headers = scope_headers sc,
      req_body = scope_body sc\<rparr>"

definition serve :: "config \<Rightarrow> upstream \<Rightarrow> scope \<Rightarrow> exn + reply" where
  "serve cfg upstream sc = dispatch cfg upstream (request_of_scope sc)"

subsection \<open>The upstream answer as requests reads it\<close>

text \<open>
  The file server answers with a status code, headers and a body. \<open>requests\<close> keeps the
  status code and the headers, and reads the body through its transport with content
  decoding switched on: when the answer carries a \<open>Content-Encoding\<close> header, whatever the
  case of its name, \<open>response.content\<close> is the body decoded under the coding the header
  names, and the body itself otherwise. The decoders (gzip, deflate) are a parameter:
  \<open>decode coding body\<close> is the decoded body. Header names are taken to be distinct, case
  set aside.
\<close>

record wire_response =
  wire_status :: nat
  wire_headers :: "(string \<times> string) list"
  wire_body :: string

definition lower_char :: "char \<Rightarrow> char" where
  "lower_char c =
     (case map_of (zip ''ABCDEFGHIJKLMNOPQRSTUVWXYZ'' ''abcdefghijklmnopqrstuvwxyz'') c of
        Some l \<Rightarrow> l
      | None \<Rightarrow> c)"

text \<open>Lookup of a lower-case header name in a case-insensitive mapping.\<close>

definition header_ci :: "string \<Rightarrow> (string \<times> string) list \<Rightarrow> string option" where
  "header_ci name items = map_of (map (\<lambda>(k, v). (map lower_char k, v)) items) name"

definition requests_response ::
    "(string \<Rightarrow> string \<Rightarrow> string) \<Rightarrow> wire_response \<Rightarrow> upstream_response" where
  "requests_response decode w =
     \<lparr>up_status_code = wire_status w,
      up_headers = wire_headers w,
      up_content =
        (case header_ci ''content-encoding'' (wire_headers w) of
           None \<Rightarrow> wire_body w
         | Some coding \<Rightarrow> decode coding (wire_body w))\<rparr>"

text \<open>\<open>requests.request\<close> over a file server: a failed call raises, an answer is read.\<close>

definition via_requests ::
    "(string \<Rightarrow> string \<Rightarrow> string) \<Rightarrow> (outbound \<Rightarrow> exn + wire_response) \<Rightarrow> upstream" where
  "via_requests decode server out =
     (case server out of
        Inl e \<Rightarrow> Inl e
      | Inr w \<Rightarrow> Inr (requests_response decode w))"

section \<open>Properties\<close>

subsection \<open>Substrings\<close>

text \<open>\<open>str_in\<close> is the substring relation.\<close>

lemma startswith_iff: "startswith s sub \<longleftrightarrow> (\<exists>q. s = sub @ q)"
  by (induction s sub rule: startswith.induct) auto

lemma str_in_iff: "str_in sub s \<longleftrightarrow> (\<exists>p q. s = p @ sub @ q)"
proof (induction s)
  case Nil
  then show ?case by auto
next
  case (Cons x xs)
  show ?case
  proof
    assume "str_in sub (x # xs)"
    then consider "startswith (x # xs) sub" | "str_in sub xs" by auto
    then show "\<exists>p q. x # xs = p @ sub @ q"
    proof cases
      case 1
      then obtain q where "x # xs = sub @ q" using startswith_iff by blast
      then have "x # xs = [] @ sub @ q" by simp
      then show ?thesis by blast
    next
      case 2
      with Cons.IH obtain p q where "xs = p @ sub @ q" by blast
      then have "x # xs = (x # p) @ sub @ q" by simp
      then show ?thesis by blast
    qed
  next
    assume "\<exists>p q. x # xs = p @ sub @ q"
    then obtain p q where pq: "x # xs = p @ sub @ q" by blast
    show "str_in sub (x # xs)"
    proof (cases p)
      case Nil
      with pq have "startswith (x # xs) sub" using startswith_iff by auto
      then show ?thesis by simp
    next
      case (Cons y ys)
      with pq have "xs = ys @ sub @ q" by simp
      with Cons.IH have "str_in sub xs" by blast
      then show ?thesis by simp
    qed
  qed
qed

subsection \<open>The matcher\<close>


lemma first_some_map_Some:
  "first_some (map f ks) = Some r \<Longrightarrow> \<exists>k\<in>set ks. f k = Some r"
proof (induction ks)
  case Nil
  then show ?case by simp
next
  case (Cons k ks)
  then show ?case by (cases "f k") auto
qed

lemma first_some_map_not_None:
  "k \<in> set ks \<Longrightarrow> f k \<noteq> None \<Longrightarrow> first_some (map f ks) \<noteq> None"
proof (induction ks)
  case Nil
  then show ?case by simp
next
  case (Cons j ks)
  then show ?case by (cases "f j") auto
qed

lemma take_in_charset:
  "k \<le> length (takeWhile P s) \<Longrightarrow> c \<in> set (take k s) \<Longrightarrow> P c"
proof (induction s arbitrary: k)
  case Nil
  then show ?case by simp
next
  case (Cons x xs)
  show ?case
  proof (cases k)
    case 0
    with Cons.prems show ?thesis by simp
  next
    case (Suc j)
    with Cons.prems have px: "P x" by (auto split: if_splits)
    with Cons.prems Suc have "j \<le> length (takeWhile P xs)" by simp
    with Cons.IH[of j] Cons.prems Suc px show ?thesis by auto
  qed
qed


lemma group_sound:
  assumes "re_run (Group cs lo # ns) i s = Some gs"
  shows "\<exists>g t gs'. s = g @ t \<and> gs = g # gs' \<and> lo \<le> length g
           \<and> (\<forall>c\<in>set g. in_charset cs c) \<and> re_run ns (i + length g) t = Some gs'"
proof -
  let ?n = "length (takeWhile (in_charset cs) s)"
  let ?f = "\<lambda>k. map_option ((#) (take k s)) (re_run ns (i + k) (drop k s))"
  from assms have "first_some (map ?f (rev [lo ..< Suc ?n])) = Some gs"
    by (simp del: upt_Suc)
  from first_some_map_Some[OF this]
  obtain k where k: "k \<in> set (rev [lo ..< Suc ?n])" and r: "?f k = Some gs"
    by blast
  from r obtain gs' where gs': "re_run ns (i + k) (drop k s) = Some gs'" "gs = take k s # gs'"
    by auto
  from k have lo: "lo \<le> k" and hi: "k \<le> ?n" by auto
  have "?n \<le> length s" by (rule length_takeWhile_le)
  with hi have len: "length (take k s) = k" by simp
  have cs: "\<forall>c\<in>set (take k s). in_charset cs c"
    using take_in_charset[OF hi] by blast
  show ?thesis
  proof (intro exI conjI)
    show "s = take k s @ drop k s" by simp
    show "gs = take k s # gs'" by (rule gs'(2))
    show "lo \<le> length (take k s)" using lo len by simp
    show "\<forall>c\<in>set (take k s). in_charset cs c" by (rule cs)
    show "re_run ns (i + length (take k s)) (drop k s) = Some gs'" using gs'(1) len by simp
  qed
qed

lemma group_complete:
  assumes "\<forall>c\<in>set g. in_charset cs c" and "lo \<le> length g"
    and "re_run ns (i + length g) t \<noteq> None"
  shows "re_run (Group cs lo # ns) i (g @ t) \<noteq> None"
proof -
  let ?s = "g @ t"
  let ?n = "length (takeWhile (in_charset cs) ?s)"
  let ?f = "\<lambda>k. map_option ((#) (take k ?s)) (re_run ns (i + k) (drop k ?s))"
  have "takeWhile (in_charset cs) ?s = g @ takeWhile (in_charset cs) t"
    using assms(1) by (simp add: takeWhile_append2)
  then have "length g \<le> ?n" by simp
  with assms(2) have mem: "length g \<in> set (rev [lo ..< Suc ?n])" by auto
  have "?f (length g) \<noteq> None" using assms(3) by simp
  from first_some_map_not_None[of "length g" _ ?f, OF mem this]
  show ?thesis by (simp del: upt_Suc)
qed

lemma lit_sound:
  "re_run (Lit c # ns) i s = Some gs \<Longrightarrow> \<exists>t. s = c # t \<and> re_run ns (Suc i) t = Some gs"
  by (cases s) (auto split: if_splits)

lemma eol_sound:
  "re_run [Eol] i s = Some gs \<Longrightarrow> gs = [] \<and> (s = [] \<or> s = [newline])"
  by (auto split: if_splits)


lemma split_unique:
  "a @ c # x = b @ c # y \<Longrightarrow> c \<notin> set a \<Longrightarrow> c \<notin> set b \<Longrightarrow> a = b \<and> x = y"
proof (induction a arbitrary: b)
  case Nil
  then show ?case by (cases b) auto
next
  case (Cons h a)
  then show ?case by (cases b) auto
qed

lemma pattern_sound:
  assumes "re_match pattern p = Some gs"
  shows "\<exists>g1 g2 g3 g4 e. gs = [g1, g2, g3, g4]
           \<and> p = ''/'' @ g1 @ ''/'' @ g2 @ ''_'' @ g3 @ ''/'' @ g4 @ e
           \<and> (e = [] \<or> e = [newline])
           \<and> g1 \<noteq> [] \<and> g2 \<noteq> [] \<and> g3 \<noteq> []
           \<and> CHR ''/'' \<notin> set g1 \<and> CHR ''/'' \<notin> set g2 \<and> CHR ''/'' \<notin> set g3
           \<and> newline \<notin> set g4"
proof -
  let ?S = "NotChar CHR ''/''"
  let ?n4 = "[Group Dot 0, Eol]"
  let ?n3 = "Lit CHR ''/'' # ?n4"
  let ?n2 = "Lit CHR ''_'' # Group ?S 1 # ?n3"
  let ?n1 = "Lit CHR ''/'' # Group ?S 1 # ?n2"
  from assms have "re_run (Lit CHR ''/'' # Group ?S 1 # ?n1) 0 p = Some gs"
    by (simp add: re_match_def pattern_def)
  from lit_sound[OF this] obtain t0 where t0: "p = CHR ''/'' # t0"
    and r0: "re_run (Group ?S 1 # ?n1) (Suc 0) t0 = Some gs" by blast
  from group_sound[OF r0] obtain g1 t1 gs1 where g1: "t0 = g1 @ t1" "gs = g1 # gs1"
    "1 \<le> length g1" "\<forall>c\<in>set g1. in_charset ?S c"
    and r1: "re_run ?n1 (Suc 0 + length g1) t1 = Some gs1" by blast
  from lit_sound[OF r1] obtain t1' where t1': "t1 = CHR ''/'' # t1'"
    and r1': "re_run (Group ?S 1 # ?n2) (Suc (Suc 0 + length g1)) t1' = Some gs1" by blast
  from group_sound[OF r1'] obtain g2 t2 gs2 where g2: "t1' = g2 @ t2" "gs1 = g2 # gs2"
    "1 \<le> length g2" "\<forall>c\<in>set g2. in_charset ?S c"
    and r2: "re_run ?n2 (Suc (Suc 0 + length g1) + length g2) t2 = Some gs2" by blast
  from lit_sound[OF r2] obtain t2' where t2': "t2 = CHR ''_'' # t2'"
    and r2': "re_run (Group ?S 1 # ?n3) (Suc (Suc (Suc 0 + length g1) + length g2)) t2' = Some gs2"
    by blast
  from group_sound[OF r2'] obtain g3 t3 gs3 where g3: "t2' = g3 @ t3" "gs2 = g3 # gs3"
    "1 \<le> length g3" "\<forall>c\<in>set g3. in_charset ?S c"
    and r3: "re_run ?n3 (Suc (Suc (Suc 0 + length g1) + length g2) + length g3) t3 = Some gs3"
    by blast
  from lit_sound[OF r3] obtain t3' where t3': "t3 = CHR ''/'' # t3'"
    and r3': "re_run ?n4 (Suc (Suc (Suc (Suc 0 + length g1) + length g2) + length g3)) t3'
                = Some gs3"
    by blast
  from group_sound[OF r3'] obtain g4 e gs4 where g4: "t3' = g4 @ e" "gs3 = g4 # gs4"
    "\<forall>c\<in>set g4. in_charset Dot c"
    and r4: "re_run [Eol] (Suc (Suc (Suc (Suc 0 + length g1) + length g2) + length g3) + length g4) e
                = Some gs4"
    by blast
  from eol_sound[OF r4] have e: "gs4 = []" "e = [] \<or> e = [newline]" by simp_all
  show ?thesis
  proof (intro exI conjI)
    show "gs = [g1, g2, g3, g4]" using g1(2) g2(2) g3(2) g4(2) e(1) by simp
    show "p = ''/'' @ g1 @ ''/'' @ g2 @ ''_'' @ g3 @ ''/'' @ g4 @ e"
      using t0 g1(1) t1' g2(1) t2' g3(1) t3' g4(1) by simp
    show "e = [] \<or> e = [newline]" by (rule e(2))
    show "g1 \<noteq> []" using g1(3) by auto
    show "g2 \<noteq> []" using g2(3) by auto
    show "g3 \<noteq> []" using g3(3) by auto
    show "CHR ''/'' \<notin> set g1" using g1(4) by auto
    show "CHR ''/'' \<notin> set g2" using g2(4) by auto
    show "CHR ''/'' \<notin> set g3" using g3(4) by auto
    show "newline \<notin> set g4" using g4(3) by auto
  qed
qed

lemma lit_complete:
  "re_run ns (Suc i) t \<noteq> None \<Longrightarrow> re_run (Lit c # ns) i (c # t) \<noteq> None"
  by simp

lemma pattern_complete:
  assumes "a \<noteq> []" "b1 \<noteq> []" "b2 \<noteq> []"
    and "CHR ''/'' \<notin> set a" "CHR ''/'' \<notin> set b1" "CHR ''/'' \<notin> set b2"
    and "newline \<notin> set r"
  shows "re_match pattern (''/'' @ a @ ''/'' @ b1 @ ''_'' @ b2 @ ''/'' @ r) \<noteq> None"
proof -
  let ?S = "NotChar CHR ''/''"
  let ?n4 = "[Group Dot 0, Eol]"
  let ?n3 = "Lit CHR ''/'' # ?n4"
  let ?n2 = "Lit CHR ''_'' # Group ?S 1 # ?n3"
  let ?n1 = "Lit CHR ''/'' # Group ?S 1 # ?n2"
  have e: "re_run [Eol] i [] \<noteq> None" for i by simp
  have "re_run ?n4 i (r @ []) \<noteq> None" for i
    by (rule group_complete) (use assms(7) e in auto)
  then have s4: "re_run ?n4 i r \<noteq> None" for i by (simp del: re_run.simps)
  have s3: "re_run ?n3 i (CHR ''/'' # r) \<noteq> None" for i
    by (rule lit_complete) (rule s4)
  have "re_run (Group ?S 1 # ?n3) i (b2 @ CHR ''/'' # r) \<noteq> None" for i
    by (rule group_complete) (use assms(3,6) s3 in \<open>auto simp: Suc_le_eq simp del: re_run.simps\<close>)
  then have s2: "re_run ?n2 i (CHR ''_'' # b2 @ CHR ''/'' # r) \<noteq> None" for i
    by (intro lit_complete)
  have "re_run (Group ?S 1 # ?n2) i (b1 @ CHR ''_'' # b2 @ CHR ''/'' # r) \<noteq> None" for i
    by (rule group_complete) (use assms(2,5) s2 in \<open>auto simp: Suc_le_eq simp del: re_run.simps\<close>)
  then have s1: "re_run ?n1 i (CHR ''/'' # b1 @ CHR ''_'' # b2 @ CHR ''/'' # r) \<noteq> None" for i
    by (intro lit_complete)
  have "re_run (Group ?S 1 # ?n1) i (a @ CHR ''/'' # b1 @ CHR ''_'' # b2 @ CHR ''/'' # r) \<noteq> None"
    for i
    by (rule group_complete) (use assms(1,4) s1 in \<open>auto simp: Suc_le_eq simp del: re_run.simps\<close>)
  then have "re_run (Lit CHR ''/'' # Group ?S 1 # ?n1) 0
               (CHR ''/'' # a @ CHR ''/'' # b1 @ CHR ''_'' # b2 @ CHR ''/'' # r) \<noteq> None"
    by (intro lit_complete)
  then have "re_run (Bol # Lit CHR ''/'' # Group ?S 1 # ?n1) 0
               (CHR ''/'' # a @ CHR ''/'' # b1 @ CHR ''_'' # b2 @ CHR ''/'' # r) \<noteq> None"
    by (simp del: re_run.simps(4,5))
  then show ?thesis
    by (simp add: re_match_def pattern_def del: re_run.simps)
qed


subsection \<open>What fix\_url\_encoding returns\<close>



lemma fix_url_encoding_cases:
  "fix_url_encoding p = p \<or>
   (\<exists>g1 g2 g3 g4 e.
      p = ''/'' @ g1 @ ''/'' @ (g2 @ ''_'' @ g3) @ ''/'' @ g4 @ e
      \<and> (e = [] \<or> e = [newline])
      \<and> g1 \<noteq> [] \<and> g2 \<noteq> [] \<and> g3 \<noteq> []
      \<and> CHR ''/'' \<notin> set g1 \<and> CHR ''/'' \<notin> set (g2 @ ''_'' @ g3)
      \<and> newline \<notin> set g4
      \<and> (str_in ''CT_BRAIN'' (g2 @ ''_'' @ g3)
           \<or> str_in ''multiclass_segmentation'' (g2 @ ''_'' @ g3))
      \<and> fix_url_encoding p = ''/'' @ g1 @ ''%252F'' @ (g2 @ ''_'' @ g3) @ ''/'' @ g4)"
proof (cases "re_match pattern p")
  case None
  then show ?thesis by (simp add: fix_url_encoding_def)
next
  case (Some gs)
  from pattern_sound[OF Some] obtain g1 g2 g3 g4 e where
    gs: "gs = [g1, g2, g3, g4]"
    and p: "p = ''/'' @ g1 @ ''/'' @ g2 @ ''_'' @ g3 @ ''/'' @ g4 @ e"
    and e: "e = [] \<or> e = [newline]"
    and ne: "g1 \<noteq> []" "g2 \<noteq> []" "g3 \<noteq> []"
    and ns: "CHR ''/'' \<notin> set g1" "CHR ''/'' \<notin> set g2" "CHR ''/'' \<notin> set g3"
    and nl: "newline \<notin> set g4"
    by blast
  let ?b = "g2 @ ''_'' @ g3"
  show ?thesis
  proof (cases "str_in ''CT_BRAIN'' ?b \<or> str_in ''multiclass_segmentation'' ?b")
    case False
    with Some gs show ?thesis by (simp add: fix_url_encoding_def)
  next
    case True
    with Some gs have "fix_url_encoding p = ''/'' @ g1 @ ''%252F'' @ ?b @ ''/'' @ g4"
      by (simp add: fix_url_encoding_def)
    with p e ne ns nl True show ?thesis
      by (intro disjI2 exI[of _ g1] exI[of _ g2] exI[of _ g3] exI[of _ g4] exI[of _ e]) simp
  qed
qed

lemma fix_url_encoding_rewrite:
  assumes a: "a \<noteq> []" "CHR ''/'' \<notin> set a"
    and b: "CHR ''/'' \<notin> set b" "b = b1 @ ''_'' @ b2" "b1 \<noteq> []" "b2 \<noteq> []"
    and r: "newline \<notin> set r"
    and m: "str_in ''CT_BRAIN'' b \<or> str_in ''multiclass_segmentation'' b"
  shows "fix_url_encoding (''/'' @ a @ ''/'' @ b @ ''/'' @ r)
           = ''/'' @ a @ ''%252F'' @ b @ ''/'' @ r"
proof -
  let ?p = "''/'' @ a @ ''/'' @ b @ ''/'' @ r"
  have pe: "?p = ''/'' @ a @ ''/'' @ b1 @ ''_'' @ b2 @ ''/'' @ r"
    using b(2) by simp
  have "re_match pattern (''/'' @ a @ ''/'' @ b1 @ ''_'' @ b2 @ ''/'' @ r) \<noteq> None"
    by (rule pattern_complete) (use a b r in auto)
  with pe obtain gs where Some: "re_match pattern ?p = Some gs" by auto
  from pattern_sound[OF Some] obtain g1 g2 g3 g4 e where
    gs: "gs = [g1, g2, g3, g4]"
    and p: "?p = ''/'' @ g1 @ ''/'' @ g2 @ ''_'' @ g3 @ ''/'' @ g4 @ e"
    and e: "e = [] \<or> e = [newline]"
    and ns: "CHR ''/'' \<notin> set g1" "CHR ''/'' \<notin> set g2" "CHR ''/'' \<notin> set g3"
    and nl: "newline \<notin> set g4"
    by blast
  let ?g = "g2 @ ''_'' @ g3"
  from p have "a @ CHR ''/'' # (b @ CHR ''/'' # r) = g1 @ CHR ''/'' # (?g @ CHR ''/'' # (g4 @ e))"
    by simp
  from split_unique[OF this a(2) ns(1)]
  have a1: "a = g1" and rest1: "b @ CHR ''/'' # r = ?g @ CHR ''/'' # (g4 @ e)" by simp_all
  have "CHR ''/'' \<notin> set ?g" using ns by simp
  from split_unique[OF rest1 b(1) this]
  have b1: "b = ?g" and rest2: "r = g4 @ e" by simp_all
  from rest2 r e have "e = []" by auto
  with rest2 have r4: "r = g4" by simp
  from m b1 have "str_in ''CT_BRAIN'' ?g \<or> str_in ''multiclass_segmentation'' ?g" by simp
  with Some gs have "fix_url_encoding ?p = ''/'' @ g1 @ ''%252F'' @ ?g @ ''/'' @ g4"
    by (simp add: fix_url_encoding_def)
  with a1 b1 r4 show ?thesis by simp
qed

subsection \<open>The rewrite rule\<close>

lemma split_first:
  assumes "x @ c # y = a @ c # b" and "c \<notin> set x" and "c \<notin> set a"
  shows "a = x \<and> b = y"
  using split_unique[OF assms] by simp

text \<open>
  Claim C1, as amended. A path \<open>/segmentA/segmentB/rest\<close> whose first segment is not empty,
  whose two segments hold no slash, whose second segment has an underscore with at least
  one character on each side and holds \<open>CT_BRAIN\<close> or \<open>multiclass_segmentation\<close>, and whose
  rest holds no newline character, comes back with the slash between the two segments
  replaced by \<open>%252F\<close> and every other character as it was.
\<close>

theorem fix_url_encoding_rewrites_marked_path:
  assumes "segmentA \<noteq> []" "CHR ''/'' \<notin> set segmentA"
    and "CHR ''/'' \<notin> set segmentB" "segmentB = pre @ ''_'' @ suf" "pre \<noteq> []" "suf \<noteq> []"
    and "newline \<notin> set rest"
    and "str_in ''CT_BRAIN'' segmentB \<or> str_in ''multiclass_segmentation'' segmentB"
  shows "fix_url_encoding (''/'' @ segmentA @ ''/'' @ segmentB @ ''/'' @ rest)
           = ''/'' @ segmentA @ ''%252F'' @ segmentB @ ''/'' @ rest"
  using assms by (rule fix_url_encoding_rewrite)

text \<open>The path of the docstring: \<open>/3D Brainz/CT_BRAIN_multiclass_segmentation/task123/model.pt\<close>.\<close>

theorem fix_url_encoding_rewrites_marked_path_witness:
  "fix_url_encoding ''/3D Brainz/CT_BRAIN_multiclass_segmentation/task123/model.pt''
     = ''/3D Brainz%252FCT_BRAIN_multiclass_segmentation/task123/model.pt''"
proof -
  have "fix_url_encoding (''/'' @ ''3D Brainz'' @ ''/'' @ ''CT_BRAIN_multiclass_segmentation''
                            @ ''/'' @ ''task123/model.pt'')
          = ''/'' @ ''3D Brainz'' @ ''%252F'' @ ''CT_BRAIN_multiclass_segmentation''
              @ ''/'' @ ''task123/model.pt''"
  proof (rule fix_url_encoding_rewrites_marked_path
                [where pre = "''CT''" and suf = "''BRAIN_multiclass_segmentation''"])
    show "''3D Brainz'' \<noteq> []" by simp
    show "CHR ''/'' \<notin> set ''3D Brainz''" by simp
    show "CHR ''/'' \<notin> set ''CT_BRAIN_multiclass_segmentation''" by simp
    show "''CT_BRAIN_multiclass_segmentation'' = ''CT'' @ ''_'' @ ''BRAIN_multiclass_segmentation''"
      by simp
    show "''CT'' \<noteq> []" by simp
    show "''BRAIN_multiclass_segmentation'' \<noteq> []" by simp
    show "newline \<notin> set ''task123/model.pt''" by (simp add: newline_def)
    show "str_in ''CT_BRAIN'' ''CT_BRAIN_multiclass_segmentation''
            \<or> str_in ''multiclass_segmentation'' ''CT_BRAIN_multiclass_segmentation''"
      by simp
  qed
  then show ?thesis by simp
qed

text \<open>
  Claim C1 as it was stated fails in two places. With an empty first segment the pattern
  does not match, since \<^verbatim>\<open>[^/]+\<close> needs a character, and the path comes back unchanged.
  With a newline inside the rest, \<^verbatim>\<open>(.*)\<close> stops before the newline and \<^verbatim>\<open>$\<close> does not
  match there, so again the path comes back unchanged.
\<close>

theorem fix_url_encoding_rewrites_marked_path_counterexample:
  "fix_url_encoding ''//CT_BRAIN_x/r'' = ''//CT_BRAIN_x/r''
   \<and> fix_url_encoding (''/'' @ [] @ ''/'' @ ''CT_BRAIN_x'' @ ''/'' @ ''r'')
        \<noteq> ''/'' @ [] @ ''%252F'' @ ''CT_BRAIN_x'' @ ''/'' @ ''r''
   \<and> fix_url_encoding (''/A/CT_BRAIN_x/a'' @ [newline] @ ''b'')
        = ''/A/CT_BRAIN_x/a'' @ [newline] @ ''b''
   \<and> fix_url_encoding (''/'' @ ''A'' @ ''/'' @ ''CT_BRAIN_x'' @ ''/'' @ (''a'' @ [newline] @ ''b''))
        \<noteq> ''/'' @ ''A'' @ ''%252F'' @ ''CT_BRAIN_x'' @ ''/'' @ (''a'' @ [newline] @ ''b'')"
proof -
  have 1: "fix_url_encoding ''//CT_BRAIN_x/r'' = ''//CT_BRAIN_x/r''"
    by code_simp
  have 2: "fix_url_encoding (''/A/CT_BRAIN_x/a'' @ [newline] @ ''b'')
             = ''/A/CT_BRAIN_x/a'' @ [newline] @ ''b''"
    by code_simp
  from 1 2 show ?thesis by simp
qed

text \<open>
  Claim C5. A string comes back unchanged unless it can be read as
  \<open>/segmentA/segmentB/rest\<close>, with no slash in either segment and an underscore in the
  second, where the second segment holds \<open>CT_BRAIN\<close> or \<open>multiclass_segmentation\<close>: a
  string that has no such reading, and a string whose second segment holds neither
  marker, are both returned as they are.
\<close>

theorem fix_url_encoding_unchanged:
  assumes "\<forall>segmentA segmentB rest.
             p = ''/'' @ segmentA @ ''/'' @ segmentB @ ''/'' @ rest
             \<and> CHR ''/'' \<notin> set segmentA \<and> CHR ''/'' \<notin> set segmentB
             \<and> CHR ''_'' \<in> set segmentB
             \<longrightarrow> \<not> str_in ''CT_BRAIN'' segmentB
                 \<and> \<not> str_in ''multiclass_segmentation'' segmentB"
  shows "fix_url_encoding p = p"
proof (rule ccontr)
  assume "fix_url_encoding p \<noteq> p"
  with fix_url_encoding_cases[of p] obtain g1 g2 g3 g4 e where
    p: "p = ''/'' @ g1 @ ''/'' @ (g2 @ ''_'' @ g3) @ ''/'' @ g4 @ e"
    and ns: "CHR ''/'' \<notin> set g1" "CHR ''/'' \<notin> set (g2 @ ''_'' @ g3)"
    and m: "str_in ''CT_BRAIN'' (g2 @ ''_'' @ g3)
             \<or> str_in ''multiclass_segmentation'' (g2 @ ''_'' @ g3)"
    by blast
  have u: "CHR ''_'' \<in> set (g2 @ ''_'' @ g3)" by simp
  note reading = assms [THEN spec [where x = g1], THEN spec [where x = "g2 @ ''_'' @ g3"],
                        THEN spec [where x = "g4 @ e"]]
  from reading p ns u m show False by simp
qed

text \<open>The path \<open>/foo/bar_baz/qux\<close> has the shape and neither marker.\<close>

theorem fix_url_encoding_unchanged_witness:
  "fix_url_encoding ''/foo/bar_baz/qux'' = ''/foo/bar_baz/qux''"
proof (rule fix_url_encoding_unchanged, intro allI impI, elim conjE)
  fix a b r
  assume p: "''/foo/bar_baz/qux'' = ''/'' @ a @ ''/'' @ b @ ''/'' @ r"
    and ns: "CHR ''/'' \<notin> set a" "CHR ''/'' \<notin> set b"
  from p have "''foo'' @ CHR ''/'' # ''bar_baz/qux'' = a @ CHR ''/'' # (b @ ''/'' @ r)"
    by simp
  from split_first[OF this _ ns(1)]
  have "b @ ''/'' @ r = ''bar_baz/qux''" by simp
  then have "''bar_baz'' @ CHR ''/'' # ''qux'' = b @ CHR ''/'' # r" by simp
  from split_first[OF this _ ns(2)]
  have "b = ''bar_baz''" by simp
  then show "\<not> str_in ''CT_BRAIN'' b \<and> \<not> str_in ''multiclass_segmentation'' b"
    by simp
qed

text \<open>
  Claim C9, as amended. The rest may be empty: a path \<open>/segmentA/segmentB/\<close> whose first
  segment is not empty, whose segments hold no slash, and whose second segment has an
  underscore with a character on each side and holds one of the two markers, comes back
  as \<open>/segmentA%252FsegmentB/\<close>.
\<close>

theorem fix_url_encoding_empty_rest:
  assumes "segmentA \<noteq> []" "CHR ''/'' \<notin> set segmentA"
    and "CHR ''/'' \<notin> set segmentB" "segmentB = pre @ ''_'' @ suf" "pre \<noteq> []" "suf \<noteq> []"
    and "str_in ''CT_BRAIN'' segmentB \<or> str_in ''multiclass_segmentation'' segmentB"
  shows "fix_url_encoding (''/'' @ segmentA @ ''/'' @ segmentB @ ''/'')
           = ''/'' @ segmentA @ ''%252F'' @ segmentB @ ''/''"
proof -
  have "fix_url_encoding (''/'' @ segmentA @ ''/'' @ segmentB @ ''/'' @ [])
           = ''/'' @ segmentA @ ''%252F'' @ segmentB @ ''/'' @ []"
    by (rule fix_url_encoding_rewrite[where ?b1.0 = pre and ?b2.0 = suf]) (use assms in simp_all)
  then show ?thesis by simp
qed

text \<open>The path \<open>/A/CT_BRAIN_x/\<close>.\<close>

theorem fix_url_encoding_empty_rest_witness:
  "fix_url_encoding ''/A/CT_BRAIN_x/'' = ''/A%252FCT_BRAIN_x/''"
proof -
  have "fix_url_encoding (''/'' @ ''A'' @ ''/'' @ ''CT_BRAIN_x'' @ ''/'')
          = ''/'' @ ''A'' @ ''%252F'' @ ''CT_BRAIN_x'' @ ''/''"
  proof (rule fix_url_encoding_empty_rest [where pre = "''CT''" and suf = "''BRAIN_x''"])
    show "''A'' \<noteq> []" by simp
    show "CHR ''/'' \<notin> set ''A''" by simp
    show "CHR ''/'' \<notin> set ''CT_BRAIN_x''" by simp
    show "''CT_BRAIN_x'' = ''CT'' @ ''_'' @ ''BRAIN_x''" by simp
    show "''CT'' \<noteq> []" by simp
    show "''BRAIN_x'' \<noteq> []" by simp
    show "str_in ''CT_BRAIN'' ''CT_BRAIN_x'' \<or> str_in ''multiclass_segmentation'' ''CT_BRAIN_x''"
      by simp
  qed
  then show ?thesis by simp
qed

text \<open>
  Claim C9 as it was stated puts no condition on the first segment; with an empty one
  the path \<open>//CT_BRAIN_x/\<close> is not rewritten.
\<close>

theorem fix_url_encoding_empty_rest_counterexample:
  "fix_url_encoding ''//CT_BRAIN_x/'' = ''//CT_BRAIN_x/''
   \<and> fix_url_encoding (''/'' @ [] @ ''/'' @ ''CT_BRAIN_x'' @ ''/'')
        \<noteq> ''/'' @ [] @ ''%252F'' @ ''CT_BRAIN_x'' @ ''/''"
proof -
  have 1: "fix_url_encoding ''//CT_BRAIN_x/'' = ''//CT_BRAIN_x/''"
    by code_simp
  from 1 show ?thesis by simp
qed

text \<open>
  Claim C10. A string that does not begin with a slash comes back unchanged, whatever
  else it holds: the pattern starts with \<^verbatim>\<open>^/\<close>.
\<close>

theorem fix_url_encoding_needs_leading_slash:
  assumes "p = [] \<or> hd p \<noteq> CHR ''/''"
  shows "fix_url_encoding p = p"
proof -
  have "re_run (Lit CHR ''/'' # ns) 0 p = None" for ns
    using assms by (cases p) auto
  then have "re_match pattern p = None"
    by (simp add: re_match_def pattern_def del: re_run.simps(4,5))
  then show ?thesis by (simp add: fix_url_encoding_def)
qed

text \<open>A string with both markers and underscored segments, but no leading slash.\<close>

theorem fix_url_encoding_needs_leading_slash_witness:
  "fix_url_encoding ''A/CT_BRAIN_x/multiclass_segmentation_y/z''
     = ''A/CT_BRAIN_x/multiclass_segmentation_y/z''"
  by (rule fix_url_encoding_needs_leading_slash) simp

subsection \<open>The relay\<close>

lemma dict_get_dict_set:
  "dict_get (dict_set k v d) k' = (if k' = k then Some v else dict_get d k')"
  by (induction d) (auto simp: dict_get_def)

lemma relay_headers_cors:
  "dict_get (relay_headers items) ''Access-Control-Allow-Origin'' = Some ''*''"
  "dict_get (relay_headers items) ''Access-Control-Allow-Methods''
     = Some ''GET, POST, OPTIONS, DELETE, PUT''"
  "dict_get (relay_headers items) ''Access-Control-Allow-Headers''
     = Some ''DNT,User-Agent,X-Requested-With,If-Modified-Since,Cache-Control,Content-Type,Range,Authorization''"
  by (simp_all add: relay_headers_def Let_def dict_get_dict_set)

lemma proxy_request_relayed:
  assumes "upstream (sync_request cfg request path) = Inr up"
  shows "proxy_request cfg upstream request path
           = Inr \<lparr>content = up_content up, status_code = up_status_code up,
                  resp_headers = relay_headers (up_headers up)\<rparr>"
  using assms by (simp add: proxy_request_def)

text \<open>
  The route \<^verbatim>\<open>/health\<close> matches the path \<open>/health\<close> alone (and the same path with a final
  newline); the catch-all route matches it too and stands first, so no request reaches
  \<open>health_check\<close>.
\<close>

lemma health_regex_sound:
  assumes "re_match ([Bol] @ map Lit ''/health'' @ [Eol]) p = Some gs"
  shows "p = ''/health'' \<or> p = ''/health'' @ [newline]"
proof -
  from assms have "re_run (Lit CHR ''/'' # Lit CHR ''h'' # Lit CHR ''e'' # Lit CHR ''a''
                     # Lit CHR ''l'' # Lit CHR ''t'' # Lit CHR ''h'' # [Eol]) 0 p = Some gs"
    by (simp add: re_match_def del: re_run.simps(3,4))
  from lit_sound[OF this] obtain t1 where 1: "p = CHR ''/'' # t1"
    and "re_run (Lit CHR ''h'' # Lit CHR ''e'' # Lit CHR ''a''
                     # Lit CHR ''l'' # Lit CHR ''t'' # Lit CHR ''h'' # [Eol]) (Suc 0) t1 = Some gs"
    by blast
  from lit_sound[OF this(2)] obtain t2 where 2: "t1 = CHR ''h'' # t2"
    and "re_run (Lit CHR ''e'' # Lit CHR ''a''
                     # Lit CHR ''l'' # Lit CHR ''t'' # Lit CHR ''h'' # [Eol]) (Suc (Suc 0)) t2 = Some gs"
    by blast
  from lit_sound[OF this(2)] obtain t3 where 3: "t2 = CHR ''e'' # t3"
    and "re_run (Lit CHR ''a''
                     # Lit CHR ''l'' # Lit CHR ''t'' # Lit CHR ''h'' # [Eol]) (Suc (Suc (Suc 0))) t3 = Some gs"
    by blast
  from lit_sound[OF this(2)] obtain t4 where 4: "t3 = CHR ''a'' # t4"
    and "re_run (Lit CHR ''l'' # Lit CHR ''t'' # Lit CHR ''h'' # [Eol]) (Suc (Suc (Suc (Suc 0)))) t4 = Some gs"
    by blast
  from lit_sound[OF this(2)] obtain t5 where 5: "t4 = CHR ''l'' # t5"
    and "re_run (Lit CHR ''t'' # Lit CHR ''h'' # [Eol]) (Suc (Suc (Suc (Suc (Suc 0))))) t5 = Some gs"
    by blast
  from lit_sound[OF this(2)] obtain t6 where 6: "t5 = CHR ''t'' # t6"
    and "re_run (Lit CHR ''h'' # [Eol]) (Suc (Suc (Suc (Suc (Suc (Suc 0)))))) t6 = Some gs"
    by blast
  from lit_sound[OF this(2)] obtain t7 where 7: "t6 = CHR ''h'' # t7"
    and "re_run [Eol] (Suc (Suc (Suc (Suc (Suc (Suc (Suc 0))))))) t7 = Some gs"
    by blast
  from eol_sound[OF this(2)] have "t7 = [] \<or> t7 = [newline]" by simp
  with 1 2 3 4 5 6 7 show ?thesis by auto
qed

lemma catch_all_health:
  "re_match [Bol, Lit CHR ''/'', Group Dot 0, Eol] ''/health'' = Some [''health'']"
  "re_match [Bol, Lit CHR ''/'', Group Dot 0, Eol] (''/health'' @ [newline]) = Some [''health'']"
  by (simp_all add: re_match_def newline_def)

lemma first_full_skip:
  assumes "endpoint r \<noteq> e" and "first_full (r # rs) request = Some (e, params)"
  shows "first_full rs request = Some (e, params)"
  using assms by (auto split: option.splits if_splits)

lemma first_full_declared_never_health:
  "first_full declared_routes request \<noteq> Some (Health_check, params)"
proof (cases "re_match [Bol, Lit CHR ''/'', Group Dot 0, Eol] (req_path request)")
  case None
  have "re_match ([Bol] @ map Lit ''/health'' @ [Eol]) (req_path request) = None"
  proof (rule ccontr)
    assume "re_match ([Bol] @ map Lit ''/health'' @ [Eol]) (req_path request) \<noteq> None"
    then obtain gs where "re_match ([Bol] @ map Lit ''/health'' @ [Eol]) (req_path request) = Some gs"
      by blast
    from health_regex_sound[OF this] None catch_all_health show False by auto
  qed
  with None show ?thesis by (simp add: declared_routes_def static_route_def)
next
  case (Some gs)
  then show ?thesis
    by (cases "re_match ([Bol] @ map Lit ''/health'' @ [Eol]) (req_path request)")
       (auto simp add: declared_routes_def static_route_def)
qed

lemma first_full_never_health:
  "first_full routes request \<noteq> Some (Health_check, params)"
proof
  assume "first_full routes request = Some (Health_check, params)"
  then have "first_full (static_route ''/openapi.json'' [''GET'', ''HEAD''] Documentation
               # static_route ''/docs'' [''GET'', ''HEAD''] Documentation
               # static_route ''/docs/oauth2-redirect'' [''GET'', ''HEAD''] Documentation
               # static_route ''/redoc'' [''GET'', ''HEAD''] Documentation
               # declared_routes) request = Some (Health_check, params)"
    by (simp add: routes_def framework_routes_def)
  then have "first_full (static_route ''/docs'' [''GET'', ''HEAD''] Documentation
               # static_route ''/docs/oauth2-redirect'' [''GET'', ''HEAD''] Documentation
               # static_route ''/redoc'' [''GET'', ''HEAD''] Documentation
               # declared_routes) request = Some (Health_check, params)"
    by (rule first_full_skip [rotated]) (simp add: static_route_def)
  then have "first_full (static_route ''/docs/oauth2-redirect'' [''GET'', ''HEAD''] Documentation
               # static_route ''/redoc'' [''GET'', ''HEAD''] Documentation
               # declared_routes) request = Some (Health_check, params)"
    by (rule first_full_skip [rotated]) (simp add: static_route_def)
  then have "first_full (static_route ''/redoc'' [''GET'', ''HEAD''] Documentation
               # declared_routes) request = Some (Health_check, params)"
    by (rule first_full_skip [rotated]) (simp add: static_route_def)
  then have "first_full declared_routes request = Some (Health_check, params)"
    by (rule first_full_skip [rotated]) (simp add: static_route_def)
  with first_full_declared_never_health show False by blast
qed

lemma health_check_unreachable:
  "dispatch cfg upstream request \<noteq> Inr (JSON 200 health_check)"
proof -
  have nh: "first_full routes request \<noteq> Some (Health_check, params)" for params
    by (rule first_full_never_health)
  show ?thesis
  proof (cases "first_full routes request")
    case None
    then show ?thesis by (simp add: dispatch_def)
  next
    case (Some ep)
    obtain e params where ep: "ep = (e, params)" by (cases ep)
    show ?thesis
    proof (cases e)
      case Documentation
      with Some ep show ?thesis by (simp add: dispatch_def)
    next
      case Proxy_request
      with Some ep show ?thesis
        by (cases "proxy_request cfg upstream request (path_param params)")
           (auto simp add: dispatch_def)
    next
      case Health_check
      with Some ep nh[of params] show ?thesis by simp
    qed
  qed
qed

lemma first_full_health:
  "first_full routes \<lparr>req_method = ''GET'', req_path = ''/health'', req_query = q,
                       req_headers = h, req_body = b\<rparr>
     = Some (Proxy_request, [''health''])"
  by (simp add: routes_def framework_routes_def declared_routes_def static_route_def
        re_match_def newline_def)

text \<open>
  The URL handed to \<open>requests.request\<close>, in terms of what the handler reads: \<open>http://\<close>,
  the file server's host, a colon, its port and the path as \<open>fix_url_encoding\<close> returns
  it, followed by a question mark and \<open>request.url.query\<close> when that is not empty.
\<close>

lemma target_url_from_url_query:
  "url (sync_request cfg request path)
     = ''http://'' @ FILESERVER_HOST cfg @ '':'' @ str_int (FILESERVER_PORT cfg)
         @ fix_url_encoding (''/'' @ path)
         @ (if req_query request = [] then [] else ''?'' @ req_query request)"
  by (simp add: sync_request_def target_url_def Let_def)

text \<open>
  \<open>request.url.query\<close> for three requests: \<open>GET /a%23b?x=1\<close>, \<open>GET /a%3Fb\<close> and
  \<open>GET /seg1/CT_BRAIN_x/tail?download=true\<close>.
\<close>

lemma url_query_examples:
  "url_query ''/a#b'' ''x=1'' = []"
  "url_query ''/a?b'' [] = ''b''"
  "url_query ''/seg1/CT_BRAIN_x/tail'' ''download=true'' = ''download=true''"
  by (simp_all add: url_query_def Let_def newline_def)

text \<open>
  Where the decoded path holds no \<open>#\<close> and no \<open>?\<close>, and neither it nor the query string
  holds a tab, a carriage return, a newline or (in the query string) a \<open>#\<close>,
  \<open>request.url.query\<close> is the query string that was sent.
\<close>

lemma url_query_split:
  assumes "\<forall>c\<in>set path. c \<noteq> CHR ''#'' \<and> c \<noteq> CHR ''?''"
    and "\<forall>c\<in>set qs. c \<noteq> CHR ''#''"
  shows "drop 1 (dropWhile (\<lambda>c. c \<noteq> CHR ''?'')
                   (takeWhile (\<lambda>c. c \<noteq> CHR ''#'') (path @ CHR ''?'' # qs))) = qs"
    and "drop 1 (dropWhile (\<lambda>c. c \<noteq> CHR ''?'')
                   (takeWhile (\<lambda>c. c \<noteq> CHR ''#'') path)) = []"
proof -
  have t: "takeWhile (\<lambda>c. c \<noteq> CHR ''#'') xs = xs" if "\<forall>c\<in>set xs. c \<noteq> CHR ''#''" for xs
    using that by (induction xs) auto
  have d: "dropWhile (\<lambda>c. c \<noteq> CHR ''?'') (xs @ ys) = dropWhile (\<lambda>c. c \<noteq> CHR ''?'') ys"
    if "\<forall>c\<in>set xs. c \<noteq> CHR ''?''" for xs ys
    using that by (induction xs) auto
  have a: "takeWhile (\<lambda>c. c \<noteq> CHR ''#'') (path @ CHR ''?'' # qs) = path @ CHR ''?'' # qs"
    by (rule t) (use assms in auto)
  have b: "dropWhile (\<lambda>c. c \<noteq> CHR ''?'') (path @ CHR ''?'' # qs) = CHR ''?'' # qs"
    using d[of path "CHR ''?'' # qs"] assms(1) by simp
  show "drop 1 (dropWhile (\<lambda>c. c \<noteq> CHR ''?'')
                   (takeWhile (\<lambda>c. c \<noteq> CHR ''#'') (path @ CHR ''?'' # qs))) = qs"
    unfolding a b by simp
  have a': "takeWhile (\<lambda>c. c \<noteq> CHR ''#'') path = path"
    by (rule t) (use assms in auto)
  have b': "dropWhile (\<lambda>c. c \<noteq> CHR ''?'') path = []"
    using d[of path "[]"] assms(1) by simp
  show "drop 1 (dropWhile (\<lambda>c. c \<noteq> CHR ''?'')
                   (takeWhile (\<lambda>c. c \<noteq> CHR ''#'') path)) = []"
    unfolding a' b' by simp
qed

lemma url_query_plain:
  assumes path: "\<forall>c\<in>set path. c \<noteq> CHR ''#'' \<and> c \<noteq> CHR ''?''
                   \<and> c \<noteq> CHR 0x09 \<and> c \<noteq> CHR 0x0D \<and> c \<noteq> newline"
    and qs: "\<forall>c\<in>set query_string. c \<noteq> CHR ''#''
                   \<and> c \<noteq> CHR 0x09 \<and> c \<noteq> CHR 0x0D \<and> c \<noteq> newline"
  shows "url_query path query_string = query_string"
proof -
  let ?keep = "\<lambda>c. c \<noteq> CHR 0x09 \<and> c \<noteq> CHR 0x0D \<and> c \<noteq> newline"
  have k: "filter ?keep xs = xs" if "\<forall>c\<in>set xs. ?keep c" for xs
    using that by (induction xs) auto
  have p1: "\<forall>c\<in>set path. c \<noteq> CHR ''#'' \<and> c \<noteq> CHR ''?''" using path by blast
  have q1: "\<forall>c\<in>set query_string. c \<noteq> CHR ''#''" using qs by blast
  show ?thesis
  proof (cases "query_string = []")
    case True
    have f: "filter ?keep path = path"
      by (rule k) (use path in blast)
    have "url_query path [] = drop 1 (dropWhile (\<lambda>c. c \<noteq> CHR ''?'')
                   (takeWhile (\<lambda>c. c \<noteq> CHR ''#'') (filter ?keep path)))"
      by (simp add: url_query_def Let_def)
    also have "\<dots> = []"
      unfolding f by (rule url_query_split(2)[OF p1 q1])
    finally show ?thesis using True by simp
  next
    case False
    have "\<forall>c\<in>set (path @ CHR ''?'' # query_string). ?keep c"
      using path qs by (auto simp: newline_def)
    then have f: "filter ?keep (path @ CHR ''?'' # query_string) = path @ CHR ''?'' # query_string"
      by (rule k)
    have "url_query path query_string = drop 1 (dropWhile (\<lambda>c. c \<noteq> CHR ''?'')
                   (takeWhile (\<lambda>c. c \<noteq> CHR ''#'')
                      (filter ?keep (path @ CHR ''?'' # query_string))))"
      using False by (simp add: url_query_def Let_def)
    also have "\<dots> = query_string"
      unfolding f by (rule url_query_split(1)[OF p1 q1])
    finally show ?thesis .
  qed
qed

text \<open>
  Claim C8 says that the target URL is \<open>http://\<close>, host, colon, port and the rewritten
  path, with a question mark and the query string behind it exactly when the inbound
  request has a query string; the comment on line 86 says \<open>Preserve query parameters\<close>.
  The handler reads \<open>request.url.query\<close>, which the framework derives from the decoded
  path. For \<open>GET /a%23b?x=1\<close> the decoded path is \<open>/a#b\<close>, the query string falls into
  the fragment, and the request is forwarded to \<open>http://fileserver:8081/a#b\<close> with no
  query. For \<open>GET /a%3Fb\<close>, which has no query string, the decoded path is \<open>/a?b\<close> and
  the handler appends \<open>?b\<close>.
\<close>

theorem query_lost_or_invented_by_decoded_path:
  "serve cfg upstream
     \<lparr>scope_method = ''GET'', scope_path = ''/a#b'', scope_query_string = ''x=1'',
      scope_headers = [], scope_body = []\<rparr>
     = map_sum id Response
         (proxy_request cfg upstream
            (request_of_scope
               \<lparr>scope_method = ''GET'', scope_path = ''/a#b'', scope_query_string = ''x=1'',
                scope_headers = [], scope_body = []\<rparr>) ''a#b'')
   \<and> url (sync_request default_config
        (request_of_scope
           \<lparr>scope_method = ''GET'', scope_path = ''/a#b'', scope_query_string = ''x=1'',
            scope_headers = [], scope_body = []\<rparr>) ''a#b'')
     = ''http://fileserver:8081/a#b''
   \<and> url (sync_request default_config
        (request_of_scope
           \<lparr>scope_method = ''GET'', scope_path = ''/a?b'', scope_query_string = [],
            scope_headers = [], scope_body = []\<rparr>) ''a?b'')
     = ''http://fileserver:8081/a?b?b''"
proof -
  have p: "str_int 8081 = ''8081''"
    by (simp add: str_int_def str_nat.simps)
  have f1: "fix_url_encoding ''/a#b'' = ''/a#b''"
    by code_simp
  have f2: "fix_url_encoding ''/a?b'' = ''/a?b''"
    by code_simp
  have r: "first_full routes
             (request_of_scope
                \<lparr>scope_method = ''GET'', scope_path = ''/a#b'', scope_query_string = ''x=1'',
                 scope_headers = [], scope_body = []\<rparr>)
           = Some (Proxy_request, [''a#b''])"
    by (simp add: request_of_scope_def routes_def framework_routes_def declared_routes_def
          static_route_def re_match_def newline_def)
  have s: "serve cfg upstream
             \<lparr>scope_method = ''GET'', scope_path = ''/a#b'', scope_query_string = ''x=1'',
              scope_headers = [], scope_body = []\<rparr>
           = map_sum id Response
               (proxy_request cfg upstream
                  (request_of_scope
                     \<lparr>scope_method = ''GET'', scope_path = ''/a#b'',
                      scope_query_string = ''x=1'', scope_headers = [], scope_body = []\<rparr>)
                  ''a#b'')"
    by (simp add: serve_def dispatch_def r)
  have u1: "url (sync_request default_config
              (request_of_scope
                 \<lparr>scope_method = ''GET'', scope_path = ''/a#b'', scope_query_string = ''x=1'',
                  scope_headers = [], scope_body = []\<rparr>) ''a#b'')
            = ''http://fileserver:8081/a#b''"
    by (simp add: sync_request_def target_url_def request_of_scope_def url_query_examples
          default_config_def p f1)
  have u2: "url (sync_request default_config
              (request_of_scope
                 \<lparr>scope_method = ''GET'', scope_path = ''/a?b'', scope_query_string = [],
                  scope_headers = [], scope_body = []\<rparr>) ''a?b'')
            = ''http://fileserver:8081/a?b?b''"
    by (simp add: sync_request_def target_url_def request_of_scope_def url_query_examples
          default_config_def p f2)
  from s u1 u2 show ?thesis by (intro conjI)
qed

text \<open>
  An upstream answer without a \<open>Content-Encoding\<close> header is relayed with its status code
  and its body as they are.
\<close>

lemma relays_uncoded_answer:
  assumes "header_ci ''content-encoding'' (wire_headers w) = None"
  shows "proxy_request cfg (via_requests decode (\<lambda>out. Inr w)) request path
           = Inr \<lparr>content = wire_body w, status_code = wire_status w,
                  resp_headers = relay_headers (wire_headers w)\<rparr>"
  using assms by (simp add: proxy_request_def via_requests_def requests_response_def)

text \<open>
  Claim C7 says that the status code and the body of every upstream answer are copied as
  they are and that redirects are not followed. The call is made with
  \<open>allow_redirects=False\<close> and the status code is copied; the body is \<open>response.content\<close>,
  which \<open>requests\<close> has already decoded. An answer with \<open>Content-Encoding: gzip\<close> is
  relayed with the decoded body under the upstream's \<open>Content-Encoding\<close> and
  \<open>Content-Length\<close> headers, which describe the body that was not sent on.
\<close>

theorem encoded_body_is_relayed_decoded:
  "proxy_request cfg
     (via_requests decode
        (\<lambda>out. Inr \<lparr>wire_status = 200,
                      wire_headers = [(''Content-Encoding'', ''gzip''),
                                      (''Content-Length'', ''30'')],
                      wire_body = body\<rparr>))
     request path
     = Inr \<lparr>content = decode ''gzip'' body,
            status_code = 200,
            resp_headers =
              [(''Content-Encoding'', ''gzip''), (''Content-Length'', ''30''),
               (''Access-Control-Allow-Origin'', ''*''),
               (''Access-Control-Allow-Methods'', ''GET, POST, OPTIONS, DELETE, PUT''),
               (''Access-Control-Allow-Headers'',
                ''DNT,User-Agent,X-Requested-With,If-Modified-Since,Cache-Control,Content-Type,Range,Authorization'')]\<rparr>
   \<and> allow_redirects (sync_request cfg request path) = False"
proof -
  have h: "header_ci ''content-encoding''
             [(''Content-Encoding'', ''gzip''), (''Content-Length'', ''30'')] = Some ''gzip''"
    by (simp add: header_ci_def lower_char_def)
  show ?thesis
    by (simp add: proxy_request_def via_requests_def requests_response_def h
          relay_headers_def dict_of_def sync_request_def)
qed

text \<open>
  Claim C6. Whatever headers the upstream sent, the headers of a relayed response hold
  \<open>Access-Control-Allow-Origin\<close> with the value \<open>*\<close>, \<open>Access-Control-Allow-Methods\<close>
  with \<open>GET, POST, OPTIONS, DELETE, PUT\<close>, and \<open>Access-Control-Allow-Headers\<close> with the
  list DNT, User-Agent, X-Requested-With, If-Modified-Since, Cache-Control, Content-Type,
  Range, Authorization, which the code separates by commas alone.
\<close>

theorem relayed_response_has_cors_headers:
  assumes "upstream (sync_request cfg request path) = Inr up"
  shows "\<exists>r. proxy_request cfg upstream request path = Inr r
           \<and> dict_get (resp_headers r) ''Access-Control-Allow-Origin'' = Some ''*''
           \<and> dict_get (resp_headers r) ''Access-Control-Allow-Methods''
                = Some ''GET, POST, OPTIONS, DELETE, PUT''
           \<and> dict_get (resp_headers r) ''Access-Control-Allow-Headers''
                = Some ''DNT,User-Agent,X-Requested-With,If-Modified-Since,Cache-Control,Content-Type,Range,Authorization''"
proof -
  have "proxy_request cfg upstream request path
          = Inr \<lparr>content = up_content up, status_code = up_status_code up,
                 resp_headers = relay_headers (up_headers up)\<rparr>"
    using assms by (rule proxy_request_relayed)
  then show ?thesis
    using relay_headers_cors[of "up_headers up"] by simp
qed

text \<open>An upstream that sends an \<open>access-control-allow-origin\<close> header of its own.\<close>

theorem relayed_response_has_cors_headers_witness:
  "\<exists>r. proxy_request default_config
          (\<lambda>out. Inr \<lparr>up_status_code = 200,
                        up_headers = [(''access-control-allow-origin'', ''http://example.org''),
                                      (''Content-Type'', ''application/octet-stream'')],
                        up_content = ''weights''\<rparr>)
          \<lparr>req_method = ''GET'', req_path = ''/models/a.pt'', req_query = [],
           req_headers = [], req_body = []\<rparr>
          ''models/a.pt'' = Inr r
      \<and> dict_get (resp_headers r) ''Access-Control-Allow-Origin'' = Some ''*''
      \<and> dict_get (resp_headers r) ''Access-Control-Allow-Methods''
           = Some ''GET, POST, OPTIONS, DELETE, PUT''
      \<and> dict_get (resp_headers r) ''Access-Control-Allow-Headers''
           = Some ''DNT,User-Agent,X-Requested-With,If-Modified-Since,Cache-Control,Content-Type,Range,Authorization''"
  by (rule relayed_response_has_cors_headers) (rule refl)

text \<open>
  Claim C2 says that a transport failure of the upstream call is answered with status
  502, \<open>Content-Type: text/plain\<close> and a body that describes the failure. The call is made
  with \<open>requests\<close>, whose failures are \<open>requests.exceptions.ConnectionError\<close> and
  \<open>requests.exceptions.Timeout\<close>, while the \<open>except\<close> clause names \<open>httpx.RequestError\<close>;
  the clause does not apply, and the exception leaves the handler instead of becoming a
  502 response.
\<close>

theorem transport_failure_leaves_handler:
  "proxy_request cfg (\<lambda>out. Inl (Requests_ConnectionError, msg)) request path
     = Inl (Requests_ConnectionError, msg)
   \<and> proxy_request cfg (\<lambda>out. Inl (Requests_Timeout, msg)) request path
     = Inl (Requests_Timeout, msg)"
  by (simp add: proxy_request_def)

text \<open>
  Claim C4 says that \<open>Connection\<close> and \<open>Transfer-Encoding\<close> never reach the relayed
  response, in whatever case the upstream spells them. The headers are first copied into
  a plain \<open>dict\<close>, whose keys keep the upstream's spelling, and the two \<open>pop\<close> calls name
  the keys in lower case: headers spelled \<open>Connection\<close> and \<open>Transfer-Encoding\<close> stay,
  and only the lower-case spellings are removed.
\<close>

theorem capitalised_hop_headers_are_relayed:
  "relay_headers [(''Connection'', ''keep-alive''), (''Transfer-Encoding'', ''chunked''),
                  (''Content-Type'', ''text/plain'')]
     = [(''Connection'', ''keep-alive''), (''Transfer-Encoding'', ''chunked''),
        (''Content-Type'', ''text/plain''),
        (''Access-Control-Allow-Origin'', ''*''),
        (''Access-Control-Allow-Methods'', ''GET, POST, OPTIONS, DELETE, PUT''),
        (''Access-Control-Allow-Headers'',
         ''DNT,User-Agent,X-Requested-With,If-Modified-Since,Cache-Control,Content-Type,Range,Authorization'')]
   \<and> relay_headers [(''connection'', ''keep-alive''), (''transfer-encoding'', ''chunked''),
                  (''Content-Type'', ''text/plain'')]
     = [(''Content-Type'', ''text/plain''),
        (''Access-Control-Allow-Origin'', ''*''),
        (''Access-Control-Allow-Methods'', ''GET, POST, OPTIONS, DELETE, PUT''),
        (''Access-Control-Allow-Headers'',
         ''DNT,User-Agent,X-Requested-With,If-Modified-Since,Cache-Control,Content-Type,Range,Authorization'')]"
  by (simp add: relay_headers_def dict_of_def)

text \<open>
  Claim C3 says that \<open>GET /health\<close> is answered with status 200 and the body of
  \<open>health_check\<close>, with no upstream call. The catch-all route stands before \<open>/health\<close> in
  the route table and accepts \<open>GET\<close>, so it takes the request: \<open>proxy_request\<close> runs with
  the path \<open>health\<close>, the request is forwarded to \<open>http://fileserver:8081/health\<close>, and when
  the upstream is unreachable the exception of the failed call is the outcome.
\<close>

theorem health_route_is_shadowed:
  "dispatch cfg upstream \<lparr>req_method = ''GET'', req_path = ''/health'', req_query = [],
                           req_headers = [], req_body = []\<rparr>
     = map_sum id Response
         (proxy_request cfg upstream
            \<lparr>req_method = ''GET'', req_path = ''/health'', req_query = [],
             req_headers = [], req_body = []\<rparr> ''health'')
   \<and> dispatch cfg (\<lambda>out. Inl (Requests_ConnectionError, msg))
        \<lparr>req_method = ''GET'', req_path = ''/health'', req_query = [],
         req_headers = [], req_body = []\<rparr>
     = Inl (Requests_ConnectionError, msg)
   \<and> url (sync_request default_config
        \<lparr>req_method = ''GET'', req_path = ''/health'', req_query = [],
         req_headers = [], req_body = []\<rparr> ''health'') = ''http://fileserver:8081/health''"
proof -
  have p: "str_int 8081 = ''8081''"
    by (simp add: str_int_def str_nat.simps)
  have f: "fix_url_encoding ''/health'' = ''/health''"
    by code_simp
  show ?thesis
    by (simp add: dispatch_def first_full_health proxy_request_def sync_request_def
          target_url_def default_config_def p f)
qed

end
